theory Spec2Isabelle
  imports Complex_Main "HOL-Library.Log_Nat"
begin

section \<open>The map scale indicator of \<^verbatim>\<open>WelcomeScreen.tsx\<close>\<close>

text \<open>
  The screen derives, on every render, a round distance and the pixel length of a bar
  from the map region and the window width (lines 215 to 230 of the source), and prints
  the distance as a label (line 322). This theory embeds that computation twice: first
  with exact real arithmetic, then with every operation rounded to a double as the code
  computes it. A property that holds whatever the rounding is stated about the first
  embedding; a property that depends on the rounding is stated about the second.
\<close>

subsection \<open>Numbers\<close>

text \<open>
  A JavaScript number is an IEEE double. The model keeps the values a double can take
  that are not reals (the two infinities and NaN), because the source divides by a
  quantity that can be zero. The first embedding computes with exact reals otherwise; the
  rounding of each operation is added in the second embedding, below. The sign of zero is
  not modelled in either (a zero divisor acts as \<open>+0\<close>).
\<close>

datatype number = Finite real | Infinity | NegInfinity | NaN

text \<open>\<^verbatim>\<open>a / b\<close> for a finite dividend \<open>a\<close>, which is all the source divides.\<close>

fun js_div :: "real \<Rightarrow> number \<Rightarrow> number" where
  "js_div a (Finite b) =
     (if b \<noteq> 0 then Finite (a / b)
      else if a = 0 then NaN
      else if 0 < a then Infinity
      else NegInfinity)"
| "js_div a Infinity = Finite 0"
| "js_div a NegInfinity = Finite 0"
| "js_div a NaN = NaN"

text \<open>\<^verbatim>\<open>x >= c\<close>, \<^verbatim>\<open>x <= c\<close> and \<^verbatim>\<open>x < c\<close> against a literal: every comparison with NaN is false.\<close>

fun js_ge :: "number \<Rightarrow> real \<Rightarrow> bool" where
  "js_ge (Finite a) c = (c \<le> a)"
| "js_ge Infinity c = True"
| "js_ge NegInfinity c = False"
| "js_ge NaN c = False"

fun js_le :: "number \<Rightarrow> real \<Rightarrow> bool" where
  "js_le (Finite a) c = (a \<le> c)"
| "js_le Infinity c = False"
| "js_le NegInfinity c = True"
| "js_le NaN c = False"

fun js_lt :: "number \<Rightarrow> real \<Rightarrow> bool" where
  "js_lt (Finite a) c = (a < c)"
| "js_lt Infinity c = False"
| "js_lt NegInfinity c = True"
| "js_lt NaN c = False"

text \<open>\<^verbatim>\<open>Math.min(c, x)\<close> and \<^verbatim>\<open>Math.max(c, x)\<close> with a literal \<open>c\<close>: NaN if \<open>x\<close> is NaN.\<close>

fun Math_min :: "real \<Rightarrow> number \<Rightarrow> number" where
  "Math_min c (Finite a) = Finite (min c a)"
| "Math_min c Infinity = Finite c"
| "Math_min c NegInfinity = NegInfinity"
| "Math_min c NaN = NaN"

fun Math_max :: "real \<Rightarrow> number \<Rightarrow> number" where
  "Math_max c (Finite a) = Finite (max c a)"
| "Math_max c Infinity = Infinity"
| "Math_max c NegInfinity = Finite c"
| "Math_max c NaN = NaN"

subsection \<open>Meters per pixel\<close>

text \<open>
  The \<^verbatim>\<open>Region\<close> of react-native-maps. The window width \<^verbatim>\<open>SCREEN_W\<close> is read once from
  \<^verbatim>\<open>Dimensions.get('window')\<close> when the module loads; it is a parameter here. The fields
  of the region and the width are finite.
  \<^verbatim>\<open>
  const metersPerPixel = (() => {
    const metersPerDegreeLon = Math.cos((region.latitude * Math.PI) / 180) * 111320;
    const viewportMeters = metersPerDegreeLon * region.longitudeDelta;
    return viewportMeters / SCREEN_W;
  })();
  \<close>
\<close>

record Region =
  latitude :: real
  longitude :: real
  latitudeDelta :: real
  longitudeDelta :: real

definition metersPerDegreeLon :: "Region \<Rightarrow> real" where
  "metersPerDegreeLon region = cos ((latitude region * pi) / 180) * 111320"

definition viewportMeters :: "Region \<Rightarrow> real" where
  "viewportMeters region = metersPerDegreeLon region * longitudeDelta region"

definition metersPerPixel :: "Region \<Rightarrow> real \<Rightarrow> number" where
  "metersPerPixel region SCREEN_W = js_div (viewportMeters region) (Finite SCREEN_W)"

subsection \<open>Choosing the distance\<close>

text \<open>
  \<^verbatim>\<open>
  const niceScales = [10, 20, 50, 100, 200, 500, 1000, 2000];
  let scaleMeters = niceScales[0];
  for (const m of niceScales) {
    const px = m / metersPerPixel;
    if (px >= 60 && px <= 160) { scaleMeters = m; break; }
    if (px < 60) scaleMeters = m; // fallback el mayor posible
  }
  const scalePx = Math.max(40, Math.min(200, scaleMeters / metersPerPixel));
  \<close>
  The loop is \<open>scaleLoop\<close>: its last argument \<open>cur\<close> is the variable \<^verbatim>\<open>scaleMeters\<close>, and the
  \<^verbatim>\<open>break\<close> is the branch that does not recurse.
\<close>

definition niceScales :: "nat list" where
  "niceScales = [10, 20, 50, 100, 200, 500, 1000, 2000]"

fun scaleLoop :: "number \<Rightarrow> nat list \<Rightarrow> nat \<Rightarrow> nat" where
  "scaleLoop mpp [] cur = cur"
| "scaleLoop mpp (m # ms) cur =
     (let px = js_div (real m) mpp in
      if js_ge px 60 \<and> js_le px 160 then m
      else if js_lt px 60 then scaleLoop mpp ms m
      else scaleLoop mpp ms cur)"

definition scaleMeters :: "number \<Rightarrow> nat" where
  "scaleMeters mpp = scaleLoop mpp niceScales (niceScales ! 0)"

definition scalePx :: "number \<Rightarrow> number" where
  "scalePx mpp = Math_max 40 (Math_min 200 (js_div (real (scaleMeters mpp)) mpp))"

subsection \<open>The label\<close>

text \<open>
  \<^verbatim>\<open>
  {scaleMeters >= 1000 ? `${(scaleMeters/1000).toFixed(1)} km` : `${scaleMeters} m`}
  \<close>
  \<open>decimal\<close> is the string of a natural number below \<open>10^21\<close>, where JavaScript writes
  all the digits. \<open>toFixed1\<close> is \<^verbatim>\<open>x.toFixed(1)\<close> for \<open>0 \<le> x < 10^21\<close>: the digits of
  the integer \<open>n\<close> that makes \<open>n / 10 - x\<close> closest to zero, the larger one of two, with
  a point before the last digit.
\<close>

function decimal :: "nat \<Rightarrow> string" where
  "decimal n =
     (if n < 10 then [''0123456789'' ! n]
      else decimal (n div 10) @ [''0123456789'' ! (n mod 10)])"
  by pat_completeness auto
termination
  by (relation "measure id") auto

declare decimal.simps [simp del]

definition toFixed1 :: "real \<Rightarrow> string" where
  "toFixed1 x =
     (let n = nat \<lfloor>x * 10 + 1 / 2\<rfloor>
      in decimal (n div 10) @ ''.'' @ decimal (n mod 10))"

definition scaleTxt :: "nat \<Rightarrow> string" where
  "scaleTxt m =
     (if m \<ge> 1000 then toFixed1 (real m / 1000) @ '' km''
      else decimal m @ '' m'')"

subsection \<open>The estimator\<close>

text \<open>
  The three values the render derives from the region and the width, collected: the
  distance, the width of the bar and the text beside it.
\<close>

record ScaleResult =
  distanceMeters :: nat
  barLengthPixels :: number
  label :: string

definition scaleEstimator :: "Region \<Rightarrow> real \<Rightarrow> ScaleResult" where
  "scaleEstimator region SCREEN_W =
     (let mpp = metersPerPixel region SCREEN_W
      in \<lparr>distanceMeters = scaleMeters mpp,
          barLengthPixels = scalePx mpp,
          label = scaleTxt (scaleMeters mpp)\<rparr>)"

section \<open>The computation in binary64 arithmetic\<close>

text \<open>
  The code computes with doubles: each product and each quotient is the exact result
  rounded to the nearest double, a tie going to the double with an even significand, and a
  result of magnitude \<open>2^1024\<close> or more is an infinity. The embedding of this section
  rounds every operation in that way.
\<close>

subsection \<open>Rounding to the nearest double\<close>

text \<open>
  \<open>binade x\<close> is the exponent \<open>e\<close> with \<open>2^e \<le> x < 2^(e + 1)\<close>, for a positive \<open>x\<close>.
  \<open>rne\<close> rounds a real to the nearest integer, a tie to the even one. \<open>ulp64 x\<close> is the
  distance between the doubles around \<open>x\<close>: 52 binary places below the exponent of \<open>x\<close>,
  and \<open>2^-1074\<close> for the subnormal numbers. \<open>round64 x\<close> is the nearest multiple of
  \<open>ulp64 x\<close>, and \<open>fl64\<close> adds the overflow.
\<close>

definition binade :: "real \<Rightarrow> int" where
  "binade x =
     (if 1 \<le> x then int (floorlog 2 (nat \<lfloor>x\<rfloor>)) - 1
      else - int (floorlog 2 (nat \<lceil>1 / x\<rceil> - 1)))"

definition rne :: "real \<Rightarrow> int" where
  "rne x =
     (let f = \<lfloor>x\<rfloor>; d = x - of_int f
      in if d < 1 / 2 then f
         else if 1 / 2 < d then f + 1
         else if even f then f else f + 1)"

definition ulp64 :: "real \<Rightarrow> real" where
  "ulp64 x = 2 powi (max (binade \<bar>x\<bar>) (- 1022) - 52)"

definition round64 :: "real \<Rightarrow> real" where
  "round64 x = (if x = 0 then 0 else of_int (rne (x / ulp64 x)) * ulp64 x)"

definition fl64 :: "real \<Rightarrow> number" where
  "fl64 x =
     (let y = round64 x
      in if 2 powi 1024 \<le> \<bar>y\<bar> then (if 0 < y then Infinity else NegInfinity)
         else Finite y)"

subsection \<open>Operations on numbers\<close>

text \<open>
  \<^verbatim>\<open>x <= y\<close> on two numbers, \<^verbatim>\<open>x > c\<close> against a literal, and the product and the quotient
  of two numbers with the cases of IEEE 754 for infinities and NaN: an infinity times zero,
  zero divided by zero and an infinity divided by an infinity are NaN.
\<close>

fun num_le :: "number \<Rightarrow> number \<Rightarrow> bool" where
  "num_le NaN y = False"
| "num_le x NaN = False"
| "num_le NegInfinity y = True"
| "num_le x Infinity = True"
| "num_le (Finite a) (Finite b) = (a \<le> b)"
| "num_le x y = False"

fun js_gt :: "number \<Rightarrow> real \<Rightarrow> bool" where
  "js_gt (Finite a) c = (c < a)"
| "js_gt Infinity c = True"
| "js_gt NegInfinity c = False"
| "js_gt NaN c = False"

definition inf_of_sign :: "real \<Rightarrow> number" where
  "inf_of_sign s = (if 0 < s then Infinity else if s < 0 then NegInfinity else NaN)"

fun sign_of :: "number \<Rightarrow> real" where
  "sign_of (Finite a) = sgn a"
| "sign_of Infinity = 1"
| "sign_of NegInfinity = - 1"
| "sign_of NaN = 0"

fun num_mul :: "number \<Rightarrow> number \<Rightarrow> number" where
  "num_mul NaN y = NaN"
| "num_mul x NaN = NaN"
| "num_mul (Finite a) (Finite b) = fl64 (a * b)"
| "num_mul x y = inf_of_sign (sign_of x * sign_of y)"

fun num_div :: "number \<Rightarrow> number \<Rightarrow> number" where
  "num_div NaN y = NaN"
| "num_div x NaN = NaN"
| "num_div (Finite a) (Finite b) = (if b \<noteq> 0 then fl64 (a / b) else inf_of_sign (sgn a))"
| "num_div (Finite a) y = Finite 0"
| "num_div x (Finite b) = inf_of_sign (sign_of x * (if 0 \<le> b then 1 else - 1))"
| "num_div x y = NaN"

text \<open>
  \<^verbatim>\<open>Math.PI\<close> is the double nearest to \<open>pi\<close>. ECMAScript leaves the precision of
  \<^verbatim>\<open>Math.cos\<close> to the implementation; it is taken here as the correctly rounded cosine,
  NaN at an infinity.
\<close>

definition Math_PI :: real where
  "Math_PI = 884279719003555 / 281474976710656"

fun Math_cos :: "number \<Rightarrow> number" where
  "Math_cos (Finite a) = fl64 (cos a)"
| "Math_cos x = NaN"

subsection \<open>Meters per pixel and the distance, rounded\<close>

text \<open>
  The same lines of the source as above, with the operations of this section. The latitude,
  the longitude span and the window width are doubles. \<open>radians64\<close> is the argument of the
  cosine and \<open>pixelLength64\<close> is the variable \<^verbatim>\<open>px\<close> of the loop.
\<close>

definition radians64 :: "real \<Rightarrow> number" where
  "radians64 lat = num_div (num_mul (Finite lat) (Finite Math_PI)) (Finite 180)"

definition metersPerDegreeLon64 :: "Region \<Rightarrow> number" where
  "metersPerDegreeLon64 region =
     num_mul (Math_cos (num_div (num_mul (Finite (latitude region)) (Finite Math_PI)) (Finite 180)))
       (Finite 111320)"

definition viewportMeters64 :: "Region \<Rightarrow> number" where
  "viewportMeters64 region = num_mul (metersPerDegreeLon64 region) (Finite (longitudeDelta region))"

definition metersPerPixel64 :: "Region \<Rightarrow> real \<Rightarrow> number" where
  "metersPerPixel64 region SCREEN_W = num_div (viewportMeters64 region) (Finite SCREEN_W)"

definition pixelLength64 :: "number \<Rightarrow> nat \<Rightarrow> number" where
  "pixelLength64 mpp m = num_div (Finite (real m)) mpp"

fun scaleLoop64 :: "number \<Rightarrow> nat list \<Rightarrow> nat \<Rightarrow> nat" where
  "scaleLoop64 mpp [] cur = cur"
| "scaleLoop64 mpp (m # ms) cur =
     (let px = pixelLength64 mpp m in
      if js_ge px 60 \<and> js_le px 160 then m
      else if js_lt px 60 then scaleLoop64 mpp ms m
      else scaleLoop64 mpp ms cur)"

definition scaleMeters64 :: "number \<Rightarrow> nat" where
  "scaleMeters64 mpp = scaleLoop64 mpp niceScales (niceScales ! 0)"

definition scalePx64 :: "number \<Rightarrow> number" where
  "scalePx64 mpp = Math_max 40 (Math_min 200 (pixelLength64 mpp (scaleMeters64 mpp)))"

section \<open>Properties of the loop\<close>

lemma scaleLoop_mem: "scaleLoop mpp ms s \<in> insert s (set ms)"
  by (induction ms arbitrary: s) (auto simp: Let_def)

lemma scaleMeters_mem: "scaleMeters mpp \<in> set niceScales"
  using scaleLoop_mem [of mpp niceScales "niceScales ! 0"]
  by (auto simp: scaleMeters_def niceScales_def)


lemma candidate_bounds: "m \<in> set niceScales \<Longrightarrow> 10 \<le> m \<and> m \<le> 2000"
  by (auto simp: niceScales_def)

text \<open>
  Without a \<^verbatim>\<open>break\<close> the variable ends as the last candidate below 60 pixels, or as
  its initial value when there is none.
\<close>

lemma scaleLoop_no_break:
  "\<forall>m\<in>set ms. \<not> (js_ge (js_div (real m) mpp) 60 \<and> js_le (js_div (real m) mpp) 160)
   \<Longrightarrow> scaleLoop mpp ms s = last (s # filter (\<lambda>m. js_lt (js_div (real m) mpp) 60) ms)"
  by (induction ms arbitrary: s) (auto simp: Let_def)

lemma scaleMeters_no_break:
  assumes "0 < r"
    and "\<forall>m\<in>set niceScales. \<not> (60 \<le> real m / r \<and> real m / r \<le> 160)"
  shows "scaleMeters (Finite r)
    = last (niceScales ! 0 # filter (\<lambda>m. real m / r < 60) niceScales)"
  using assms scaleLoop_no_break [of niceScales "Finite r" "niceScales ! 0"]
  by (simp add: scaleMeters_def)

subsection \<open>The readable range against the steps of the list\<close>

lemma in_range_iff:
  "0 < r \<Longrightarrow> (60 \<le> a / r \<and> a / r \<le> 160) = (60 * r \<le> a \<and> a \<le> 160 * r)"
  for a r :: real
  by (simp add: pos_le_divide_eq pos_divide_le_eq)

lemma some_in_range:
  assumes "0 < r" "10 / r \<le> 160" "60 \<le> 2000 / r"
  shows "\<exists>m\<in>set niceScales. 60 \<le> real m / r \<and> real m / r \<le> 160"
proof -
  from assms have "10 \<le> 160 * r" "60 * r \<le> 2000"
    by (simp_all add: pos_le_divide_eq pos_divide_le_eq)
  then have "(60 * r \<le> 10 \<and> 10 \<le> 160 * r) \<or> (60 * r \<le> 20 \<and> 20 \<le> 160 * r)
    \<or> (60 * r \<le> 50 \<and> 50 \<le> 160 * r) \<or> (60 * r \<le> 100 \<and> 100 \<le> 160 * r)
    \<or> (60 * r \<le> 200 \<and> 200 \<le> 160 * r) \<or> (60 * r \<le> 500 \<and> 500 \<le> 160 * r)
    \<or> (60 * r \<le> 1000 \<and> 1000 \<le> 160 * r) \<or> (60 * r \<le> 2000 \<and> 2000 \<le> 160 * r)"
    by linarith
  with assms(1) show ?thesis
    by (simp add: niceScales_def in_range_iff)
qed

text \<open>With no candidate in range, all of them are below 60 pixels or all are above 160.\<close>

lemma none_in_range_cases:
  assumes r: "0 < r"
    and none: "\<forall>m\<in>set niceScales. \<not> (60 \<le> real m / r \<and> real m / r \<le> 160)"
  shows "(\<forall>m\<in>set niceScales. real m / r < 60) \<or> (\<forall>m\<in>set niceScales. 160 < real m / r)"
proof (cases "10 / r \<le> 160")
  case True
  with r none some_in_range [of r] have top: "2000 / r < 60"
    by fastforce
  have "real m / r < 60" if "m \<in> set niceScales" for m
  proof -
    from that have "real m \<le> 2000"
      using candidate_bounds [of m] by simp
    with r have "real m / r \<le> 2000 / r"
      by (simp add: divide_right_mono)
    with top show ?thesis by simp
  qed
  then show ?thesis by blast
next
  case False
  have "160 < real m / r" if "m \<in> set niceScales" for m
  proof -
    from that have "10 \<le> real m"
      using candidate_bounds [of m] by simp
    with r have "10 / r \<le> real m / r"
      by (simp add: divide_right_mono)
    with False show ?thesis by simp
  qed
  then show ?thesis by blast
qed

subsection \<open>The clamp\<close>

lemma clamp_id:
  assumes "js_ge px 60" and "js_le px 160"
  shows "Math_max 40 (Math_min 200 px) = px"
  using assms by (cases px) simp_all

lemma clamp_bounds:
  assumes "px \<noteq> NaN"
  shows "\<exists>p. Math_max 40 (Math_min 200 px) = Finite p \<and> 40 \<le> p \<and> p \<le> 200"
  using assms by (cases px) simp_all




subsection \<open>Evaluations\<close>

lemma scaleMeters_at_2: "scaleMeters (Finite 2) = 200"
  by (simp add: scaleMeters_def niceScales_def)

lemma scaleMeters_at_100: "scaleMeters (Finite 100) = 2000"
  by (simp add: scaleMeters_def niceScales_def)

lemma scaleTxt_candidates:
  "map scaleTxt niceScales
     = [''10 m'', ''20 m'', ''50 m'', ''100 m'', ''200 m'', ''500 m'', ''1.0 km'', ''2.0 km'']"
  by (simp add: niceScales_def scaleTxt_def toFixed1_def decimal.simps)

lemma zip_map_mem: "m \<in> set xs \<Longrightarrow> (m, f m) \<in> set (zip xs (map f xs))"
  by (induction xs) auto

section \<open>Properties of the rounding\<close>

subsection \<open>The exponent\<close>

lemma binade_ge1:
  assumes "1 \<le> x"
  shows "2 powi binade x \<le> x \<and> x < 2 powi (binade x + 1)"
proof -
  define n where "n = nat \<lfloor>x\<rfloor>"
  define f where "f = floorlog 2 n"
  from assms have n1: "1 \<le> n" by (simp add: n_def le_nat_iff)
  then have b: "2 ^ (f - 1) \<le> n \<and> n < 2 ^ f"
    unfolding f_def using floorlog_bounds [of n 2] by simp
  with n1 have f1: "1 \<le> f"
    by (cases f) auto
  from assms have nx: "real n \<le> x" "x < real n + 1"
    by (simp_all add: n_def)
  have bin: "binade x = int f - 1"
    using assms by (simp add: binade_def n_def f_def)
  from f1 have "int f - 1 = int (f - 1)" by simp
  then have p1: "(2::real) powi (int f - 1) = 2 ^ (f - 1)"
    by (simp only: power_int_of_nat)
  have p2: "(2::real) powi (int f - 1 + 1) = 2 ^ f"
    by simp
  from b have lo: "(2::real) ^ (f - 1) \<le> real n"
    using of_nat_mono [of "2 ^ (f - 1)" n, where 'a = real] by simp
  from b have "n + 1 \<le> 2 ^ f" by simp
  then have hi: "real n + 1 \<le> 2 ^ f"
    using of_nat_mono [of "n + 1" "2 ^ f", where 'a = real] by simp
  from lo hi nx have "2 ^ (f - 1) \<le> x \<and> x < 2 ^ f"
    by linarith
  then show ?thesis
    by (simp only: bin p1 p2)
qed

lemma binade_lt1:
  assumes "0 < x" "x < 1"
  shows "2 powi binade x \<le> x \<and> x < 2 powi (binade x + 1)"
proof -
  define k where "k = nat \<lceil>1 / x\<rceil> - 1"
  define f where "f = floorlog 2 k"
  from assms have y1: "1 < 1 / x" by simp
  then have c2: "2 \<le> \<lceil>1 / x\<rceil>" by linarith
  then have ik: "int k = \<lceil>1 / x\<rceil> - 1"
    unfolding k_def by linarith
  with c2 have k1: "1 \<le> k" by linarith
  have "real k = real_of_int (int k)" by simp
  with ik have kc: "real k = of_int \<lceil>1 / x\<rceil> - 1"
    by simp
  then have ky: "real k < 1 / x" "1 / x \<le> real k + 1"
    by linarith+
  from k1 have b: "2 ^ (f - 1) \<le> k \<and> k < 2 ^ f"
    unfolding f_def using floorlog_bounds [of k 2] by simp
  with k1 have f1: "1 \<le> f"
    by (cases f) auto
  have bin: "binade x = - int f"
    using assms by (simp add: binade_def k_def f_def)
  have p1: "(2::real) powi (- int f) = 1 / 2 ^ f"
    by (simp add: power_int_minus divide_inverse)
  have p2': "(2::real) powi (- int (f - 1)) = 1 / 2 ^ (f - 1)"
    by (simp only: power_int_minus power_int_of_nat inverse_eq_divide)
  from f1 have e: "- int f + 1 = - int (f - 1)" by simp
  have p2: "(2::real) powi (- int f + 1) = 1 / 2 ^ (f - 1)"
    unfolding e by (rule p2')
  from b have "k + 1 \<le> 2 ^ f" by simp
  then have "real k + 1 \<le> 2 ^ f"
    using of_nat_mono [of "k + 1" "2 ^ f", where 'a = real] by simp
  with ky have "1 / x \<le> 2 ^ f" by linarith
  with assms have lo: "1 / 2 ^ f \<le> x"
    by (simp add: field_simps)
  from b have "(2::real) ^ (f - 1) \<le> real k"
    using of_nat_mono [of "2 ^ (f - 1)" k, where 'a = real] by simp
  with ky have "2 ^ (f - 1) < 1 / x" by linarith
  with assms have hi: "x < 1 / 2 ^ (f - 1)"
    by (simp add: field_simps)
  from lo hi show ?thesis
    by (simp only: bin p1 p2)
qed

lemma pow2_less_imp: "(2::real) powi a < 2 powi b \<Longrightarrow> a < b"
  using power_int_increasing [of b a "2::real"] by (cases "a < b") simp_all

lemma binade_bounds:
  assumes "0 < x"
  shows "2 powi binade x \<le> x" and "x < 2 powi (binade x + 1)"
  using assms binade_ge1 [of x] binade_lt1 [of x] by (cases "1 \<le> x"; simp)+

lemma binade_unique:
  assumes "0 < x" "2 powi e \<le> x" "x < 2 powi (e + 1)"
  shows "binade x = e"
proof (rule antisym)
  from binade_bounds(1) [OF assms(1)] assms(3) have "(2::real) powi binade x < 2 powi (e + 1)"
    by simp
  then have "binade x < e + 1"
    by (rule pow2_less_imp)
  then show "binade x \<le> e" by simp
next
  from binade_bounds(2) [OF assms(1)] assms(2) have "(2::real) powi e < 2 powi (binade x + 1)"
    by simp
  then have "e < binade x + 1"
    by (rule pow2_less_imp)
  then show "e \<le> binade x" by simp
qed

lemma binade_mono:
  assumes "0 < x" "x \<le> y"
  shows "binade x \<le> binade y"
proof -
  from assms have y: "0 < y" by simp
  from binade_bounds(1) [OF assms(1)] assms(2) binade_bounds(2) [OF y]
  have "(2::real) powi binade x < 2 powi (binade y + 1)" by simp
  then have "binade x < binade y + 1"
    by (rule pow2_less_imp)
  then show ?thesis by simp
qed

subsection \<open>Rounding to an integer\<close>

lemma rne_of_int [simp]: "rne (of_int n) = n"
  by (simp add: rne_def)

lemma rne_bounds: "\<lfloor>x\<rfloor> \<le> rne x \<and> rne x \<le> \<lfloor>x\<rfloor> + 1"
  by (simp add: rne_def Let_def)

lemma rne_mono:
  assumes "x \<le> y"
  shows "rne x \<le> rne y"
proof (cases "\<lfloor>x\<rfloor> = \<lfloor>y\<rfloor>")
  case True
  with assms show ?thesis
    by (simp add: rne_def Let_def)
next
  case False
  with assms have "\<lfloor>x\<rfloor> + 1 \<le> \<lfloor>y\<rfloor>"
    using floor_mono [of x y] by simp
  with rne_bounds [of x] rne_bounds [of y] show ?thesis
    by linarith
qed

lemma rne_minus: "rne (- x) = - rne x"
proof (cases "x = of_int \<lfloor>x\<rfloor>")
  case True
  then have "- x = of_int (- \<lfloor>x\<rfloor>)" by simp
  then have "rne (- x) = - \<lfloor>x\<rfloor>"
    by (simp only: rne_of_int)
  moreover from True have "rne x = \<lfloor>x\<rfloor>"
    by (metis rne_of_int)
  ultimately show ?thesis by simp
next
  case False
  then have fl: "\<lfloor>- x\<rfloor> = - \<lfloor>x\<rfloor> - 1"
    by (simp add: floor_minus ceiling_altdef)
  show ?thesis
    unfolding rne_def Let_def fl by (auto simp: algebra_simps)
qed

subsection \<open>Rounding to a double is monotone and odd\<close>

lemma ulp64_pos: "0 < ulp64 x"
  by (simp add: ulp64_def)

lemma round64_minus: "round64 (- x) = - round64 x"
  by (simp add: round64_def ulp64_def rne_minus)

lemma round64_nonneg: "0 \<le> x \<Longrightarrow> 0 \<le> round64 x"
proof -
  assume "0 \<le> x"
  then have "0 \<le> x / ulp64 x"
    using ulp64_pos [of x] by simp
  then have "rne 0 \<le> rne (x / ulp64 x)"
    by (rule rne_mono)
  then have "0 \<le> rne (x / ulp64 x)"
    using rne_of_int [of 0] by simp
  then show ?thesis
    using ulp64_pos [of x] by (simp add: round64_def)
qed

lemma pow2_div: "(2::real) powi a / 2 powi b = 2 powi (a - b)"
  by (simp add: power_int_diff)

lemma pow2_mult: "(2::real) powi a * 2 powi b = 2 powi (a + b)"
  by (simp add: power_int_add)

lemma round64_upper:
  assumes "0 < x"
  shows "round64 x \<le> 2 powi (max (binade x) (- 1022) + 1)"
proof -
  define e where "e = max (binade x) (- 1022)"
  have u: "ulp64 x = 2 powi (e - 52)"
    using assms by (simp add: ulp64_def e_def)
  from assms have r: "round64 x = real_of_int (rne (x / 2 powi (e - 52))) * 2 powi (e - 52)"
    by (simp add: round64_def u)
  have "x < 2 powi (binade x + 1)"
    using assms by (rule binade_bounds)
  also have "\<dots> \<le> 2 powi (e + 1)"
    by (rule power_int_increasing) (simp_all add: e_def)
  finally have "x / 2 powi (e - 52) \<le> 2 powi (e + 1) / 2 powi (e - 52)"
    by (simp add: divide_right_mono)
  also have "\<dots> = of_int (2 ^ 53)"
    by (simp add: pow2_div)
  finally have "rne (x / 2 powi (e - 52)) \<le> rne (of_int (2 ^ 53))"
    by (rule rne_mono)
  then have "rne (x / 2 powi (e - 52)) \<le> 2 ^ 53"
    by (simp only: rne_of_int)
  then have "real_of_int (rne (x / 2 powi (e - 52))) \<le> 2 powi 53"
    by (metis of_int_le_iff of_int_numeral of_int_power power_int_numeral)
  then have "real_of_int (rne (x / 2 powi (e - 52))) * 2 powi (e - 52) \<le> 2 powi 53 * 2 powi (e - 52)"
    by (rule mult_right_mono) simp
  also have "(2::real) powi 53 * 2 powi (e - 52) = 2 powi (53 + (e - 52))"
    by (rule pow2_mult)
  also have "53 + (e - 52) = e + 1"
    by simp
  finally show ?thesis
    unfolding r e_def .
qed

lemma round64_lower:
  assumes "0 < y" and "- 1022 \<le> binade y"
  shows "2 powi binade y \<le> round64 y"
proof -
  define e where "e = binade y"
  have u: "ulp64 y = 2 powi (e - 52)"
    using assms by (simp add: ulp64_def e_def max_def)
  from assms have r: "round64 y = real_of_int (rne (y / 2 powi (e - 52))) * 2 powi (e - 52)"
    by (simp add: round64_def u)
  have "2 powi e \<le> y"
    unfolding e_def using assms(1) by (rule binade_bounds)
  then have "2 powi e / 2 powi (e - 52) \<le> y / 2 powi (e - 52)"
    by (simp add: divide_right_mono)
  moreover have "(2::real) powi e / 2 powi (e - 52) = of_int (2 ^ 52)"
    by (simp add: pow2_div)
  ultimately have "rne (of_int (2 ^ 52)) \<le> rne (y / 2 powi (e - 52))"
    by (simp only: rne_mono)
  then have "2 ^ 52 \<le> rne (y / 2 powi (e - 52))"
    by (simp only: rne_of_int)
  then have le: "2 powi 52 \<le> real_of_int (rne (y / 2 powi (e - 52)))"
    by (metis of_int_le_iff of_int_numeral of_int_power power_int_numeral)
  have "52 + (e - 52) = e"
    by simp
  then have "(2::real) powi e = 2 powi (52 + (e - 52))"
    by simp
  also have "\<dots> = 2 powi 52 * 2 powi (e - 52)"
    by (rule pow2_mult [symmetric])
  also from le have "\<dots> \<le> real_of_int (rne (y / 2 powi (e - 52))) * 2 powi (e - 52)"
    by (rule mult_right_mono) simp
  finally show ?thesis
    unfolding r e_def .
qed

lemma round64_mono_pos:
  assumes "0 < x" "x \<le> y"
  shows "round64 x \<le> round64 y"
proof -
  from assms have y: "0 < y" by simp
  define ex where "ex = max (binade x) (- 1022)"
  define ey where "ey = max (binade y) (- 1022)"
  have le: "ex \<le> ey"
    using binade_mono [OF assms] by (simp add: ex_def ey_def)
  show ?thesis
  proof (cases "ex = ey")
    case True
    then have u: "ulp64 y = ulp64 x"
      using assms y by (simp add: ulp64_def ex_def ey_def)
    from assms have "x / ulp64 x \<le> y / ulp64 x"
      using ulp64_pos [of x] by (simp add: divide_right_mono)
    then have "rne (x / ulp64 x) \<le> rne (y / ulp64 x)"
      by (rule rne_mono)
    then have "of_int (rne (x / ulp64 x)) * ulp64 x \<le> of_int (rne (y / ulp64 x)) * ulp64 x"
      using ulp64_pos [of x] by (simp add: mult_right_mono)
    with assms y show ?thesis
      by (simp add: round64_def u)
  next
    case False
    with le have lt: "ex + 1 \<le> ey" by simp
    then have biny: "ey = binade y" "- 1022 \<le> binade y"
      by (simp_all add: ex_def ey_def max_def split: if_splits)
    have "round64 x \<le> 2 powi (ex + 1)"
      unfolding ex_def using assms(1) by (rule round64_upper)
    also from lt have "\<dots> \<le> 2 powi ey"
      by (intro power_int_increasing) simp_all
    also have "\<dots> \<le> round64 y"
      unfolding biny(1) using y biny(2) by (rule round64_lower)
    finally show ?thesis .
  qed
qed

lemma round64_mono:
  assumes "x \<le> y"
  shows "round64 x \<le> round64 y"
proof -
  consider "0 < x" | "x \<le> 0" "0 \<le> y" | "y < 0"
    using assms by linarith
  then show ?thesis
  proof cases
    case 1
    then show ?thesis using assms by (rule round64_mono_pos)
  next
    case 2
    then have "0 \<le> round64 y" "0 \<le> round64 (- x)"
      by (simp_all add: round64_nonneg)
    then show ?thesis
      by (simp add: round64_minus)
  next
    case 3
    with assms have "0 < - y" "- y \<le> - x" by simp_all
    then have "round64 (- y) \<le> round64 (- x)"
      by (rule round64_mono_pos)
    then show ?thesis
      by (simp add: round64_minus)
  qed
qed

lemma fl64_mono:
  assumes "x \<le> y"
  shows "num_le (fl64 x) (fl64 y)"
  using round64_mono [OF assms]
  by (auto simp: fl64_def Let_def)

lemma fl64_not_NaN [simp]: "fl64 x \<noteq> NaN"
  by (simp add: fl64_def Let_def)

lemma fl64_uminus: "fl64 x = Finite y \<Longrightarrow> fl64 (- x) = Finite (- y)"
  by (auto simp: fl64_def Let_def round64_minus split: if_splits)

lemma fl64_mono_Finite: "x \<le> y \<Longrightarrow> fl64 x = Finite a \<Longrightarrow> fl64 y = Finite b \<Longrightarrow> a \<le> b"
  using fl64_mono [of x y] by simp

lemma fl64_between:
  assumes "lo \<le> x" "x \<le> hi" "fl64 lo = Finite a" "fl64 hi = Finite b"
  shows "\<exists>y. fl64 x = Finite y \<and> a \<le> y \<and> y \<le> b"
  using fl64_mono [OF assms(1)] fl64_mono [OF assms(2)] assms(3,4)
  by (cases "fl64 x") simp_all

subsection \<open>Doubles that are rounded to themselves\<close>

lemma round64_eval:
  assumes "0 < x" "2 powi e \<le> x" "x < 2 powi (e + 1)" "- 1022 \<le> e"
  shows "round64 x = of_int (rne (x / 2 powi (e - 52))) * 2 powi (e - 52)"
proof -
  from assms have "binade x = e" by (intro binade_unique)
  with assms show ?thesis
    by (simp add: round64_def ulp64_def max_def)
qed

lemma fl64_0: "fl64 0 = Finite 0"
  by (simp add: fl64_def round64_def)

lemma fl64_1: "fl64 1 = Finite 1"
proof -
  have "round64 1 = 1"
    by (subst round64_eval [where e = 0]) (simp_all add: rne_def)
  then show ?thesis by (simp add: fl64_def)
qed

lemma fl64_minus_1: "fl64 (- 1) = Finite (- 1)"
  using fl64_uminus [OF fl64_1] by simp

lemma fl64_2: "fl64 2 = Finite 2"
proof -
  have "round64 2 = 2"
    by (subst round64_eval [where e = 1]) (simp_all add: rne_def)
  then show ?thesis by (simp add: fl64_def)
qed

lemma fl64_60: "fl64 60 = Finite 60"
proof -
  have "round64 60 = 60"
    by (subst round64_eval [where e = 5]) (simp_all add: rne_def)
  then show ?thesis by (simp add: fl64_def)
qed

lemma fl64_160: "fl64 160 = Finite 160"
proof -
  have "round64 160 = 160"
    by (subst round64_eval [where e = 7]) (simp_all add: rne_def)
  then show ?thesis by (simp add: fl64_def)
qed

lemma fl64_288: "fl64 288 = Finite 288"
proof -
  have "round64 288 = 288"
    by (subst round64_eval [where e = 8]) (simp_all add: rne_def)
  then show ?thesis by (simp add: fl64_def)
qed

lemma fl64_111320: "fl64 111320 = Finite 111320"
proof -
  have "round64 111320 = 111320"
    by (subst round64_eval [where e = 16]) (simp_all add: rne_def)
  then show ?thesis by (simp add: fl64_def)
qed




section \<open>Properties of the rounded computation\<close>

subsection \<open>The loop\<close>

lemma scaleLoop64_find:
  "find (\<lambda>m. js_ge (pixelLength64 mpp m) 60 \<and> js_le (pixelLength64 mpp m) 160) ms = Some m
   \<Longrightarrow> scaleLoop64 mpp ms s = m"
  by (induction ms arbitrary: s) (auto simp: Let_def split: if_splits)

lemma scaleMeters64_in_range:
  assumes "\<exists>m\<in>set niceScales. js_ge (pixelLength64 mpp m) 60 \<and> js_le (pixelLength64 mpp m) 160"
  shows "js_ge (pixelLength64 mpp (scaleMeters64 mpp)) 60
    \<and> js_le (pixelLength64 mpp (scaleMeters64 mpp)) 160"
proof -
  let ?P = "\<lambda>m. js_ge (pixelLength64 mpp m) 60 \<and> js_le (pixelLength64 mpp m) 160"
  from assms obtain m where m: "find ?P niceScales = Some m"
    by (cases "find ?P niceScales") (auto simp: find_None_iff)
  then have "?P m"
    unfolding find_Some_iff by blast
  moreover from m have "scaleMeters64 mpp = m"
    unfolding scaleMeters64_def by (rule scaleLoop64_find)
  ultimately show ?thesis by simp
qed

lemma pixelLength64_pos: "0 < r \<Longrightarrow> pixelLength64 (Finite r) m = fl64 (real m / r)"
  by (simp add: pixelLength64_def)

lemma js_lt_not_ge: "js_lt x c \<Longrightarrow> \<not> js_ge x c"
  by (cases x) simp_all

lemma js_gt_not_le: "js_gt x c \<Longrightarrow> \<not> js_le x c"
  by (cases x) simp_all

text \<open>
  60 and 160 are doubles and the rounding is monotone, so a quotient on one side of a
  bound is rounded to a double on the same side, or to the bound.
\<close>

lemma fl64_ge_60: "60 \<le> q \<Longrightarrow> js_ge (fl64 q) 60"
  using fl64_mono [of 60 q] by (cases "fl64 q") (simp_all add: fl64_60)

lemma fl64_le_160: "q \<le> 160 \<Longrightarrow> js_le (fl64 q) 160"
  using fl64_mono [of q 160] by (cases "fl64 q") (simp_all add: fl64_160)

lemma fl64_lt_60:
  "q < 60 \<Longrightarrow> \<not> (js_ge (fl64 q) 60 \<and> js_le (fl64 q) 160) \<Longrightarrow> js_lt (fl64 q) 60"
  using fl64_mono [of q 60] by (cases "fl64 q") (simp_all add: fl64_60)

lemma fl64_gt_160:
  "160 < q \<Longrightarrow> \<not> (js_ge (fl64 q) 60 \<and> js_le (fl64 q) 160) \<Longrightarrow> js_gt (fl64 q) 160"
  using fl64_mono [of 160 q] by (cases "fl64 q") (simp_all add: fl64_160)

lemma fl64_far_above: "288 \<le> q \<Longrightarrow> js_gt (fl64 q) 160 \<and> \<not> js_le (fl64 q) 160"
  using fl64_mono [of 288 q] by (cases "fl64 q") (simp_all add: fl64_288)

lemma exact_in_range_imp:
  assumes "0 < r" "60 \<le> real m / r \<and> real m / r \<le> 160"
  shows "js_ge (pixelLength64 (Finite r) m) 60 \<and> js_le (pixelLength64 (Finite r) m) 160"
  using assms by (simp add: pixelLength64_pos fl64_ge_60 fl64_le_160)

lemma none64_cases:
  assumes r: "0 < r"
    and none: "\<forall>m\<in>set niceScales.
      \<not> (js_ge (pixelLength64 (Finite r) m) 60 \<and> js_le (pixelLength64 (Finite r) m) 160)"
  shows "(\<forall>m\<in>set niceScales. js_lt (pixelLength64 (Finite r) m) 60)
    \<or> (\<forall>m\<in>set niceScales. js_gt (pixelLength64 (Finite r) m) 160)"
proof -
  from none have "\<forall>m\<in>set niceScales. \<not> (60 \<le> real m / r \<and> real m / r \<le> 160)"
    using exact_in_range_imp [OF r] by blast
  with r have "(\<forall>m\<in>set niceScales. real m / r < 60) \<or> (\<forall>m\<in>set niceScales. 160 < real m / r)"
    by (rule none_in_range_cases)
  then show ?thesis
  proof
    assume "\<forall>m\<in>set niceScales. real m / r < 60"
    with none r have "\<forall>m\<in>set niceScales. js_lt (pixelLength64 (Finite r) m) 60"
      by (simp add: pixelLength64_pos fl64_lt_60)
    then show ?thesis ..
  next
    assume "\<forall>m\<in>set niceScales. 160 < real m / r"
    with none r have "\<forall>m\<in>set niceScales. js_gt (pixelLength64 (Finite r) m) 160"
      by (simp add: pixelLength64_pos fl64_gt_160)
    then show ?thesis ..
  qed
qed

text \<open>
  The double 0.8333333333333334 as meters per pixel: the quotient of 50 by it is below 60
  and is rounded to 60.
\<close>

lemma pixelLength64_at_10: "pixelLength64 (Finite (7505999378950827 / 9007199254740992)) 10 = Finite 12"
proof -
  have "round64 (10 / (7505999378950827 / 9007199254740992)) = 12"
    by (subst round64_eval [where e = 3]) (simp_all add: rne_def)
  then show ?thesis by (simp add: pixelLength64_def fl64_def)
qed

lemma pixelLength64_at_20: "pixelLength64 (Finite (7505999378950827 / 9007199254740992)) 20 = Finite 24"
proof -
  have "round64 (20 / (7505999378950827 / 9007199254740992)) = 24"
    by (subst round64_eval [where e = 4]) (simp_all add: rne_def)
  then show ?thesis by (simp add: pixelLength64_def fl64_def)
qed

lemma pixelLength64_at_50: "pixelLength64 (Finite (7505999378950827 / 9007199254740992)) 50 = Finite 60"
proof -
  have "round64 (50 / (7505999378950827 / 9007199254740992)) = 60"
    by (subst round64_eval [where e = 5]) (simp_all add: rne_def)
  then show ?thesis by (simp add: pixelLength64_def fl64_def)
qed

lemma scaleMeters64_at_50: "scaleMeters64 (Finite (7505999378950827 / 9007199254740992)) = 50"
  by (simp add: scaleMeters64_def niceScales_def pixelLength64_at_10 pixelLength64_at_20 pixelLength64_at_50)

subsection \<open>The cosine of the latitude\<close>


lemma mpdl64: "metersPerDegreeLon64 region
    = num_mul (Math_cos (radians64 (latitude region))) (Finite 111320)"
  by (simp add: metersPerDegreeLon64_def radians64_def)

lemma Math_PI_bounds: "0 < Math_PI" "Math_PI \<le> 16 / 5"
  by (simp_all add: Math_PI_def)

lemma radians64_bounds:
  assumes "0 \<le> lat" "lat \<le> 90"
  shows "\<exists>q. radians64 lat = Finite q \<and> 0 \<le> q \<and> q \<le> 2"
proof -
  from assms Math_PI_bounds have "0 \<le> lat * Math_PI"
    by simp
  moreover from assms Math_PI_bounds have "lat * Math_PI \<le> 90 * (16 / 5)"
    by (intro mult_mono) simp_all
  then have "lat * Math_PI \<le> 288" by simp
  ultimately obtain p where p: "fl64 (lat * Math_PI) = Finite p" "0 \<le> p" "p \<le> 288"
    using fl64_between [OF _ _ fl64_0 fl64_288] by blast
  then have "0 \<le> p / 180" "p / 180 \<le> 2"
    by simp_all
  then obtain q where "fl64 (p / 180) = Finite q" "0 \<le> q" "q \<le> 2"
    using fl64_between [OF _ _ fl64_0 fl64_2] by blast
  with p show ?thesis
    by (simp add: radians64_def)
qed

lemma radians64_mono:
  assumes "0 \<le> a" "a \<le> b" "b \<le> 90"
    and "radians64 a = Finite qa" "radians64 b = Finite qb"
  shows "qa \<le> qb"
proof -
  from assms(1-3) Math_PI_bounds have le: "a * Math_PI \<le> b * Math_PI"
    by (simp add: mult_right_mono)
  from assms(4) obtain pa where pa: "fl64 (a * Math_PI) = Finite pa" "fl64 (pa / 180) = Finite qa"
    by (cases "fl64 (a * Math_PI)") (simp_all add: radians64_def inf_of_sign_def)
  from assms(5) obtain pb where pb: "fl64 (b * Math_PI) = Finite pb" "fl64 (pb / 180) = Finite qb"
    by (cases "fl64 (b * Math_PI)") (simp_all add: radians64_def inf_of_sign_def)
  from le pa(1) pb(1) have "pa \<le> pb"
    by (rule fl64_mono_Finite)
  then have "pa / 180 \<le> pb / 180"
    by simp
  then show ?thesis
    using pa(2) pb(2) by (rule fl64_mono_Finite)
qed

lemma radians64_minus:
  assumes "radians64 lat = Finite q"
  shows "radians64 (- lat) = Finite (- q)"
proof -
  from assms obtain p where p: "fl64 (lat * Math_PI) = Finite p" "fl64 (p / 180) = Finite q"
    by (cases "fl64 (lat * Math_PI)") (simp_all add: radians64_def inf_of_sign_def)
  from fl64_uminus [OF p(1)] have "fl64 (- lat * Math_PI) = Finite (- p)"
    by simp
  moreover from fl64_uminus [OF p(2)] have "fl64 (- p / 180) = Finite (- q)"
    by simp
  ultimately show ?thesis
    by (simp add: radians64_def)
qed

lemma Math_cos_bounds: "\<exists>c. Math_cos (Finite q) = Finite c \<and> - 1 \<le> c \<and> c \<le> 1"
  using fl64_between [OF cos_ge_minus_one cos_le_one fl64_minus_1 fl64_1, of q] by simp

text \<open>The value depends on the absolute latitude only.\<close>

lemma Math_cos_radians64_abs:
  assumes "\<bar>lat\<bar> \<le> 90"
  shows "Math_cos (radians64 lat) = Math_cos (radians64 \<bar>lat\<bar>)"
proof (cases "0 \<le> lat")
  case True
  then show ?thesis by simp
next
  case False
  with assms have "0 \<le> - lat" "- lat \<le> 90" by simp_all
  then obtain q where q: "radians64 (- lat) = Finite q"
    using radians64_bounds by blast
  from radians64_minus [OF q] have "radians64 lat = Finite (- q)"
    by simp
  with q False show ?thesis
    by (simp add: abs_if)
qed

lemma Math_cos_radians64_antimono:
  assumes "0 \<le> a" "a \<le> b" "b \<le> 90"
  shows "\<exists>ca cb. Math_cos (radians64 a) = Finite ca \<and> Math_cos (radians64 b) = Finite cb
    \<and> cb \<le> ca \<and> - 1 \<le> cb \<and> ca \<le> 1"
proof -
  from assms obtain qa where qa: "radians64 a = Finite qa" "0 \<le> qa" "qa \<le> 2"
    using radians64_bounds [of a] by auto
  from assms obtain qb where qb: "radians64 b = Finite qb" "0 \<le> qb" "qb \<le> 2"
    using radians64_bounds [of b] by auto
  from assms qa(1) qb(1) have "qa \<le> qb"
    by (rule radians64_mono)
  moreover from qb(3) have "qb \<le> pi"
    using pi_ge_two by linarith
  ultimately have cos: "cos qb \<le> cos qa"
    using qa(2) by (intro cos_monotone_0_pi_le)
  obtain ca where ca: "Math_cos (Finite qa) = Finite ca" "- 1 \<le> ca" "ca \<le> 1"
    using Math_cos_bounds by blast
  obtain cb where cb: "Math_cos (Finite qb) = Finite cb" "- 1 \<le> cb" "cb \<le> 1"
    using Math_cos_bounds by blast
  from cos ca(1) cb(1) have "cb \<le> ca"
    using fl64_mono_Finite [of "cos qb" "cos qa" cb ca] by simp
  with qa(1) qb(1) ca cb show ?thesis
    by simp
qed


lemma metersPerDegreeLon64_finite:
  assumes "\<bar>latitude region\<bar> \<le> 90"
  shows "\<exists>v. metersPerDegreeLon64 region = Finite v \<and> \<bar>v\<bar> \<le> 111320"
proof -
  obtain c where c: "Math_cos (radians64 \<bar>latitude region\<bar>) = Finite c" "- 1 \<le> c" "c \<le> 1"
    using Math_cos_radians64_antimono [OF _ _ assms, of "\<bar>latitude region\<bar>"] by auto
  then have "- 111320 \<le> c * 111320" "c * 111320 \<le> 111320"
    by simp_all
  moreover have "fl64 (- 111320) = Finite (- 111320)"
    using fl64_uminus [OF fl64_111320] by simp
  ultimately obtain v where "fl64 (c * 111320) = Finite v" "- 111320 \<le> v" "v \<le> 111320"
    using fl64_between [OF _ _ _ fl64_111320, of "- 111320" "c * 111320" "- 111320"] by blast
  with c show ?thesis
    by (auto simp: mpdl64 Math_cos_radians64_abs [OF assms])
qed



subsection \<open>The rounded computation against the exact one\<close>

text \<open>
  The selected distance is a candidate, the clamp is the identity in the readable range,
  the bar is between 40 and 200 pixels long and the loop without its \<^verbatim>\<open>break\<close> ends on
  the largest or on the smallest candidate: what is proved below of the exact embedding
  holds of the rounded one as well.
\<close>

lemma scaleLoop64_mem: "scaleLoop64 mpp ms s \<in> insert s (set ms)"
  by (induction ms arbitrary: s) (auto simp: Let_def)

lemma scaleMeters64_mem: "scaleMeters64 mpp \<in> set niceScales"
  using scaleLoop64_mem [of mpp niceScales "niceScales ! 0"]
  by (auto simp: scaleMeters64_def niceScales_def)

lemma scalePx64_in_range:
  assumes "js_ge (pixelLength64 mpp (scaleMeters64 mpp)) 60"
    and "js_le (pixelLength64 mpp (scaleMeters64 mpp)) 160"
  shows "scalePx64 mpp = pixelLength64 mpp (scaleMeters64 mpp)"
  using assms by (simp add: scalePx64_def clamp_id)

lemma pixelLength64_not_NaN: "0 < m \<Longrightarrow> mpp \<noteq> NaN \<Longrightarrow> pixelLength64 mpp m \<noteq> NaN"
  by (cases mpp) (simp_all add: pixelLength64_def inf_of_sign_def)

lemma scalePx64_bounds:
  assumes "mpp \<noteq> NaN"
  shows "\<exists>p. scalePx64 mpp = Finite p \<and> 40 \<le> p \<and> p \<le> 200"
proof -
  have "0 < scaleMeters64 mpp"
    using scaleMeters64_mem [of mpp] by (auto simp: niceScales_def)
  then have "pixelLength64 mpp (scaleMeters64 mpp) \<noteq> NaN"
    using assms by (rule pixelLength64_not_NaN)
  then show ?thesis
    unfolding scalePx64_def by (rule clamp_bounds)
qed

lemma metersPerPixel64_not_NaN:
  assumes "\<bar>latitude region\<bar> \<le> 90" "0 < SCREEN_W"
  shows "metersPerPixel64 region SCREEN_W \<noteq> NaN"
proof -
  from assms(1) obtain v where "metersPerDegreeLon64 region = Finite v"
    using metersPerDegreeLon64_finite by blast
  then have "viewportMeters64 region = fl64 (v * longitudeDelta region)"
    by (simp add: viewportMeters64_def)
  with assms(2) show ?thesis
    by (cases "fl64 (v * longitudeDelta region)")
      (simp_all add: metersPerPixel64_def inf_of_sign_def)
qed

lemma scaleLoop64_no_break:
  "\<forall>m\<in>set ms. \<not> (js_ge (pixelLength64 mpp m) 60 \<and> js_le (pixelLength64 mpp m) 160)
   \<Longrightarrow> scaleLoop64 mpp ms s = last (s # filter (\<lambda>m. js_lt (pixelLength64 mpp m) 60) ms)"
  by (induction ms arbitrary: s) (auto simp: Let_def)

lemma js_gt_not_lt: "js_gt x 160 \<Longrightarrow> \<not> js_lt x 60"
  by (cases x) simp_all

lemma scaleMeters64_fallback:
  assumes "0 < r"
    and none: "\<forall>m\<in>set niceScales.
      \<not> (js_ge (pixelLength64 (Finite r) m) 60 \<and> js_le (pixelLength64 (Finite r) m) 160)"
  shows "((\<forall>m\<in>set niceScales. js_lt (pixelLength64 (Finite r) m) 60)
        \<and> scaleMeters64 (Finite r) = 2000)
     \<or> ((\<forall>m\<in>set niceScales. js_gt (pixelLength64 (Finite r) m) 160)
        \<and> scaleMeters64 (Finite r) = 10)"
proof -
  have eq: "scaleMeters64 (Finite r)
      = last (niceScales ! 0 # filter (\<lambda>m. js_lt (pixelLength64 (Finite r) m) 60) niceScales)"
    unfolding scaleMeters64_def using none by (rule scaleLoop64_no_break)
  from none64_cases [OF assms] show ?thesis
  proof
    assume below: "\<forall>m\<in>set niceScales. js_lt (pixelLength64 (Finite r) m) 60"
    then have "filter (\<lambda>m. js_lt (pixelLength64 (Finite r) m) 60) niceScales = niceScales"
      by (simp only: filter_True)
    with eq have "scaleMeters64 (Finite r) = 2000"
      by (simp add: niceScales_def)
    with below show ?thesis by blast
  next
    assume above: "\<forall>m\<in>set niceScales. js_gt (pixelLength64 (Finite r) m) 160"
    then have "filter (\<lambda>m. js_lt (pixelLength64 (Finite r) m) 60) niceScales = []"
      using js_gt_not_lt by (intro filter_False) blast
    with eq have "scaleMeters64 (Finite r) = 10"
      by (simp add: niceScales_def)
    with above show ?thesis by blast
  qed
qed

section \<open>The claims\<close>

text \<open>
  Claim C1: for every meters-per-pixel value, and so for every positive one, with the
  pixel length of a candidate computed as the code computes it (the candidate divided by
  the meters per pixel, rounded to a double), if some candidate of the list 10, 20, 50,
  100, 200, 500, 1000, 2000 has its pixel length in the inclusive range from 60 to 160,
  then the selected distance is the first such candidate in the order of the list: it is
  in range and no candidate before it is.
\<close>

theorem scaleMeters64_first_in_range:
  assumes "\<exists>m\<in>set niceScales. js_ge (pixelLength64 mpp m) 60 \<and> js_le (pixelLength64 mpp m) 160"
  shows "find (\<lambda>m. js_ge (pixelLength64 mpp m) 60 \<and> js_le (pixelLength64 mpp m) 160) niceScales
      = Some (scaleMeters64 mpp)
    \<and> (\<exists>i<length niceScales. scaleMeters64 mpp = niceScales ! i
          \<and> js_ge (pixelLength64 mpp (niceScales ! i)) 60
          \<and> js_le (pixelLength64 mpp (niceScales ! i)) 160
          \<and> (\<forall>j<i. \<not> (js_ge (pixelLength64 mpp (niceScales ! j)) 60
                      \<and> js_le (pixelLength64 mpp (niceScales ! j)) 160)))"
proof -
  let ?P = "\<lambda>m. js_ge (pixelLength64 mpp m) 60 \<and> js_le (pixelLength64 mpp m) 160"
  from assms obtain m where m: "find ?P niceScales = Some m"
    by (cases "find ?P niceScales") (auto simp: find_None_iff)
  then have sm: "scaleMeters64 mpp = m"
    unfolding scaleMeters64_def by (rule scaleLoop64_find)
  from m obtain i where "i < length niceScales" "?P (niceScales ! i)" "m = niceScales ! i"
    "\<forall>j<i. \<not> ?P (niceScales ! j)"
    unfolding find_Some_iff by blast
  with m sm show ?thesis by blast
qed

theorem scaleMeters64_first_in_range_witness:
  "(\<exists>m\<in>set niceScales.
       js_ge (pixelLength64 (Finite (7505999378950827 / 9007199254740992)) m) 60
       \<and> js_le (pixelLength64 (Finite (7505999378950827 / 9007199254740992)) m) 160)
   \<and> find (\<lambda>m. js_ge (pixelLength64 (Finite (7505999378950827 / 9007199254740992)) m) 60
          \<and> js_le (pixelLength64 (Finite (7505999378950827 / 9007199254740992)) m) 160)
        niceScales
       = Some (scaleMeters64 (Finite (7505999378950827 / 9007199254740992)))
   \<and> scaleMeters64 (Finite (7505999378950827 / 9007199254740992)) = 50
   \<and> pixelLength64 (Finite (7505999378950827 / 9007199254740992)) 50 = Finite 60
   \<and> (50::real) / (7505999378950827 / 9007199254740992) < 60"
proof -
  let ?mpp = "Finite (7505999378950827 / 9007199254740992)"
  have ex: "\<exists>m\<in>set niceScales. js_ge (pixelLength64 ?mpp m) 60 \<and> js_le (pixelLength64 ?mpp m) 160"
    by (simp add: niceScales_def pixelLength64_at_50)
  have "(50::real) / (7505999378950827 / 9007199254740992) < 60"
    by simp
  with scaleMeters64_first_in_range [OF ex] ex scaleMeters64_at_50 pixelLength64_at_50
  show ?thesis by blast
qed

text \<open>
  Claim C2, as stated: when no candidate's pixel length is in the range from 60 to 160,
  the selected distance is the smallest candidate if the whole list is exhausted with
  every pixel length below 60. At 100 meters per pixel the pixel lengths are 0.1, 0.2,
  0.5, 1, 2, 5, 10 and 20, all below 60, and the selected distance is 2000, the largest
  candidate, not 10, the smallest.
\<close>

theorem scaleMeters_exhausted_below_60:
  "(10::real) / 100 < 60 \<and> (20::real) / 100 < 60 \<and> (50::real) / 100 < 60
   \<and> (100::real) / 100 < 60 \<and> (200::real) / 100 < 60 \<and> (500::real) / 100 < 60
   \<and> (1000::real) / 100 < 60 \<and> (2000::real) / 100 < 60
   \<and> niceScales = [10, 20, 50, 100, 200, 500, 1000, 2000]
   \<and> scaleMeters (Finite 100) = 2000
   \<and> scaleMeters (Finite 100) \<noteq> 10"
  by (simp add: scaleMeters_at_100 niceScales_def)

text \<open>
  Claim C2, amended: for every positive meters-per-pixel value such that no candidate's
  pixel length is in the range from 60 to 160, the selected distance is the last
  candidate whose pixel length is below 60, or the first candidate of the list when
  there is none. For this list only two cases remain: every pixel length is below 60
  and the selected distance is 2000, the largest candidate; or every pixel length is
  above 160 and the selected distance is 10, the smallest candidate.
\<close>

theorem scaleMeters_fallback:
  assumes "0 < r"
    and "\<forall>m\<in>set niceScales. \<not> (60 \<le> real m / r \<and> real m / r \<le> 160)"
  shows "scaleMeters (Finite r)
      = last (niceScales ! 0 # filter (\<lambda>m. real m / r < 60) niceScales)
    \<and> (((\<forall>m\<in>set niceScales. real m / r < 60) \<and> scaleMeters (Finite r) = 2000)
       \<or> ((\<forall>m\<in>set niceScales. 160 < real m / r) \<and> scaleMeters (Finite r) = 10))"
proof -
  have eq: "scaleMeters (Finite r)
      = last (niceScales ! 0 # filter (\<lambda>m. real m / r < 60) niceScales)"
    using assms by (rule scaleMeters_no_break)
  from none_in_range_cases [OF assms]
  have "((\<forall>m\<in>set niceScales. real m / r < 60) \<and> scaleMeters (Finite r) = 2000)
       \<or> ((\<forall>m\<in>set niceScales. 160 < real m / r) \<and> scaleMeters (Finite r) = 10)"
  proof
    assume below: "\<forall>m\<in>set niceScales. real m / r < 60"
    then have "filter (\<lambda>m. real m / r < 60) niceScales = niceScales"
      by (simp only: filter_True)
    with eq have "scaleMeters (Finite r) = 2000"
      by (simp add: niceScales_def)
    with below show ?thesis by blast
  next
    assume above: "\<forall>m\<in>set niceScales. 160 < real m / r"
    then have "filter (\<lambda>m. real m / r < 60) niceScales = []"
      by (intro filter_False) fastforce
    with eq have "scaleMeters (Finite r) = 10"
      by (simp add: niceScales_def)
    with above show ?thesis by blast
  qed
  with eq show ?thesis by blast
qed

theorem scaleMeters_fallback_witness:
  "(0::real) < 100
   \<and> \<not> (\<exists>m\<in>set niceScales. 60 \<le> real m / 100 \<and> real m / 100 \<le> 160)
   \<and> scaleMeters (Finite 100)
       = last (niceScales ! 0 # filter (\<lambda>m. real m / 100 < 60) niceScales)
   \<and> scaleMeters (Finite 100) = 2000"
proof -
  have pos: "(0::real) < 100" by simp
  have none: "\<forall>m\<in>set niceScales. \<not> (60 \<le> real m / 100 \<and> real m / 100 \<le> 160)"
    by (simp add: niceScales_def)
  from scaleMeters_fallback [OF pos none] pos none scaleMeters_at_100
  show ?thesis by blast
qed






text \<open>
  Claim C5: the returned distance is always one of 10, 20, 50, 100, 200, 500, 1000 and
  2000 meters, for every region and every window width.
\<close>

theorem distance_in_niceScales:
  "distanceMeters (scaleEstimator region SCREEN_W) \<in> {10, 20, 50, 100, 200, 500, 1000, 2000}"
  using scaleMeters_mem [of "metersPerPixel region SCREEN_W"]
  by (simp add: scaleEstimator_def Let_def niceScales_def)

text \<open>
  Claim C6: at latitude 0, with a longitude span of 0.01 degrees and a window 1000
  pixels wide, the viewport is 1113.2 meters wide, a pixel is 1.1132 meters, the
  selected distance is 100 meters, its bar is 100 / 1.1132 pixels long, which is within
  half a pixel of 90, and the label is "100 m".
\<close>

theorem equator_example:
  "viewportMeters \<lparr>latitude = 0, longitude = lon, latitudeDelta = dlat,
      longitudeDelta = 1 / 100\<rparr> = 11132 / 10
   \<and> metersPerPixel \<lparr>latitude = 0, longitude = lon, latitudeDelta = dlat,
      longitudeDelta = 1 / 100\<rparr> 1000 = Finite (11132 / 10000)
   \<and> scaleEstimator \<lparr>latitude = 0, longitude = lon, latitudeDelta = dlat,
      longitudeDelta = 1 / 100\<rparr> 1000
     = \<lparr>distanceMeters = 100, barLengthPixels = Finite (100 / (11132 / 10000)),
        label = ''100 m''\<rparr>
   \<and> \<bar>100 / (11132 / 10000) - 90\<bar> < (1 / 2 :: real)"
proof -
  let ?region = "\<lparr>latitude = 0, longitude = lon, latitudeDelta = dlat,
    longitudeDelta = 1 / 100\<rparr>"
  have vm: "viewportMeters ?region = 11132 / 10"
    by (simp add: viewportMeters_def metersPerDegreeLon_def)
  then have mpp: "metersPerPixel ?region 1000 = Finite (11132 / 10000)"
    by (simp add: metersPerPixel_def)
  have sm: "scaleMeters (Finite (11132 / 10000)) = 100"
    by (simp add: scaleMeters_def niceScales_def)
  have px: "scalePx (Finite (11132 / 10000)) = Finite (100 / (11132 / 10000))"
    by (simp only: scalePx_def sm) simp
  have lbl: "scaleTxt 100 = ''100 m''"
    by (simp add: scaleTxt_def decimal.simps)
  have "scaleEstimator ?region 1000
     = \<lparr>distanceMeters = 100, barLengthPixels = Finite (100 / (11132 / 10000)),
        label = ''100 m''\<rparr>"
    by (simp only: scaleEstimator_def Let_def mpp sm px lbl)
  with vm mpp show ?thesis by simp
qed

text \<open>
  Claim C7: the label of every distance that can be selected is the distance in whole
  meters followed by " m" when it is below 1000, and the distance in kilometers with
  one decimal place followed by " km" when it is 1000 or more; 1000 gives "1.0 km" and
  500 gives "500 m". The estimator returns a distance and a label that stand at the
  same place in the two lists.
\<close>

theorem scaleTxt_labels:
  "map scaleTxt niceScales
     = [''10 m'', ''20 m'', ''50 m'', ''100 m'', ''200 m'', ''500 m'', ''1.0 km'', ''2.0 km'']
   \<and> scaleTxt 1000 = ''1.0 km'' \<and> scaleTxt 500 = ''500 m''
   \<and> (distanceMeters (scaleEstimator region SCREEN_W), label (scaleEstimator region SCREEN_W))
       \<in> set (zip niceScales
           [''10 m'', ''20 m'', ''50 m'', ''100 m'', ''200 m'', ''500 m'', ''1.0 km'', ''2.0 km''])"
proof -
  let ?labels = "[''10 m'', ''20 m'', ''50 m'', ''100 m'', ''200 m'', ''500 m'', ''1.0 km'',
    ''2.0 km'']"
  have one: "scaleTxt 1000 = ''1.0 km''"
    by (simp add: scaleTxt_def toFixed1_def decimal.simps)
  have two: "scaleTxt 500 = ''500 m''"
    by (simp add: scaleTxt_def decimal.simps)
  from zip_map_mem [OF scaleMeters_mem [of "metersPerPixel region SCREEN_W"], of scaleTxt]
  have "(distanceMeters (scaleEstimator region SCREEN_W),
      label (scaleEstimator region SCREEN_W)) \<in> set (zip niceScales ?labels)"
    by (simp only: scaleTxt_candidates scaleEstimator_def Let_def ScaleResult.simps)
  with scaleTxt_candidates one two show ?thesis by blast
qed

text \<open>
  Claim C9: each candidate is at most 2.5 times the one before it, and 2.5 is less than
  160 / 60, so the readable range cannot be skipped. For every positive
  meters-per-pixel value, with the pixel lengths as the code computes them (rounded to a
  double): if the pixel length of the smallest candidate is at most 160 and that of the
  largest is at least 60, then some candidate's pixel length is between 60 and 160 and so
  is that of the selected distance; and the loop ends without its \<^verbatim>\<open>break\<close> (no
  candidate in range) only when every pixel length is below 60 or the pixel length of the
  smallest candidate is above 160.
\<close>

theorem readable_range_not_skipped64:
  assumes "0 < r"
  shows "successively (\<lambda>a b. real b \<le> 5 / 2 * real a) niceScales
    \<and> (5 / 2 :: real) < 160 / 60
    \<and> (js_le (pixelLength64 (Finite r) (hd niceScales)) 160
        \<and> js_ge (pixelLength64 (Finite r) (last niceScales)) 60 \<longrightarrow>
         (\<exists>m\<in>set niceScales. js_ge (pixelLength64 (Finite r) m) 60
            \<and> js_le (pixelLength64 (Finite r) m) 160)
         \<and> js_ge (pixelLength64 (Finite r) (scaleMeters64 (Finite r))) 60
         \<and> js_le (pixelLength64 (Finite r) (scaleMeters64 (Finite r))) 160)
    \<and> ((\<forall>m\<in>set niceScales. \<not> (js_ge (pixelLength64 (Finite r) m) 60
            \<and> js_le (pixelLength64 (Finite r) m) 160)) \<longrightarrow>
         (\<forall>m\<in>set niceScales. js_lt (pixelLength64 (Finite r) m) 60)
         \<or> js_gt (pixelLength64 (Finite r) (hd niceScales)) 160)"
proof (intro conjI impI)
  show "successively (\<lambda>a b. real b \<le> 5 / 2 * real a) niceScales"
    by (simp add: niceScales_def)
next
  show "(5 / 2 :: real) < 160 / 60"
    by simp
next
  assume ends: "js_le (pixelLength64 (Finite r) (hd niceScales)) 160
    \<and> js_ge (pixelLength64 (Finite r) (last niceScales)) 60"
  have hd_in: "hd niceScales \<in> set niceScales" and last_in: "last niceScales \<in> set niceScales"
    by (simp_all add: niceScales_def)
  show ex: "\<exists>m\<in>set niceScales. js_ge (pixelLength64 (Finite r) m) 60
      \<and> js_le (pixelLength64 (Finite r) m) 160"
  proof (rule ccontr)
    assume "\<not> ?thesis"
    then have none: "\<forall>m\<in>set niceScales.
        \<not> (js_ge (pixelLength64 (Finite r) m) 60 \<and> js_le (pixelLength64 (Finite r) m) 160)"
      by blast
    from none64_cases [OF assms none] show False
    proof
      assume "\<forall>m\<in>set niceScales. js_lt (pixelLength64 (Finite r) m) 60"
      with last_in have "js_lt (pixelLength64 (Finite r) (last niceScales)) 60"
        by blast
      with ends show False
        using js_lt_not_ge by blast
    next
      assume "\<forall>m\<in>set niceScales. js_gt (pixelLength64 (Finite r) m) 160"
      with hd_in have "js_gt (pixelLength64 (Finite r) (hd niceScales)) 160"
        by blast
      with ends show False
        using js_gt_not_le by blast
    qed
  qed
  from scaleMeters64_in_range [OF ex]
  show "js_ge (pixelLength64 (Finite r) (scaleMeters64 (Finite r))) 60"
    "js_le (pixelLength64 (Finite r) (scaleMeters64 (Finite r))) 160"
    by simp_all
next
  assume none: "\<forall>m\<in>set niceScales. \<not> (js_ge (pixelLength64 (Finite r) m) 60
      \<and> js_le (pixelLength64 (Finite r) m) 160)"
  have hd_in: "hd niceScales \<in> set niceScales"
    by (simp add: niceScales_def)
  from none64_cases [OF assms none] hd_in
  show "(\<forall>m\<in>set niceScales. js_lt (pixelLength64 (Finite r) m) 60)
      \<or> js_gt (pixelLength64 (Finite r) (hd niceScales)) 160"
    by blast
qed

theorem readable_range_not_skipped64_witness:
  "(0::real) < 7505999378950827 / 9007199254740992
   \<and> js_le (pixelLength64 (Finite (7505999378950827 / 9007199254740992)) (hd niceScales)) 160
   \<and> js_ge (pixelLength64 (Finite (7505999378950827 / 9007199254740992)) (last niceScales)) 60
   \<and> js_ge (pixelLength64 (Finite (7505999378950827 / 9007199254740992))
        (scaleMeters64 (Finite (7505999378950827 / 9007199254740992)))) 60
   \<and> js_le (pixelLength64 (Finite (7505999378950827 / 9007199254740992))
        (scaleMeters64 (Finite (7505999378950827 / 9007199254740992)))) 160
   \<and> (0::real) < 1 / 100
   \<and> \<not> (\<exists>m\<in>set niceScales. js_ge (pixelLength64 (Finite (1 / 100)) m) 60
          \<and> js_le (pixelLength64 (Finite (1 / 100)) m) 160)
   \<and> js_gt (pixelLength64 (Finite (1 / 100)) (hd niceScales)) 160"
proof -
  let ?r = "7505999378950827 / 9007199254740992 :: real"
  have pos: "0 < ?r" and pos': "(0::real) < 1 / 100"
    by simp_all
  have "js_ge (fl64 (2000 / ?r)) 60"
    by (rule fl64_ge_60) simp
  then have ends: "js_le (pixelLength64 (Finite ?r) (hd niceScales)) 160
      \<and> js_ge (pixelLength64 (Finite ?r) (last niceScales)) 60"
    by (simp add: niceScales_def pixelLength64_at_10) (simp add: pixelLength64_def)
  have none: "\<forall>m\<in>set niceScales. \<not> (js_ge (pixelLength64 (Finite (1 / 100)) m) 60
      \<and> js_le (pixelLength64 (Finite (1 / 100)) m) 160)"
    by (simp add: niceScales_def pixelLength64_def fl64_far_above)
  have not_below: "\<not> (\<forall>m\<in>set niceScales. js_lt (pixelLength64 (Finite (1 / 100)) m) 60)"
    using js_lt_not_ge [of "fl64 1000" 60] fl64_ge_60 [of 1000]
    by (auto simp: niceScales_def pixelLength64_def)
  from readable_range_not_skipped64 [OF pos] ends
  have "js_ge (pixelLength64 (Finite ?r) (scaleMeters64 (Finite ?r))) 60
      \<and> js_le (pixelLength64 (Finite ?r) (scaleMeters64 (Finite ?r))) 160"
    by blast
  moreover from readable_range_not_skipped64 [OF pos'] none not_below
  have "js_gt (pixelLength64 (Finite (1 / 100)) (hd niceScales)) 160"
    by blast
  ultimately show ?thesis
    using pos pos' ends none by blast
qed

text \<open>
  Claim C10: whenever the pixel length of the selected distance (the distance divided by
  the meters per pixel) is between 60 and 160, the clamp to the range from 40 to 200
  changes nothing: the returned bar length is exactly that quotient.
\<close>

theorem clamp_identity_in_range:
  assumes "js_ge (js_div (real (scaleMeters mpp)) mpp) 60"
    and "js_le (js_div (real (scaleMeters mpp)) mpp) 160"
  shows "scalePx mpp = js_div (real (scaleMeters mpp)) mpp"
  using assms by (simp add: scalePx_def clamp_id)

theorem clamp_identity_in_range_witness:
  "js_ge (js_div (real (scaleMeters (Finite 2))) (Finite 2)) 60
   \<and> js_le (js_div (real (scaleMeters (Finite 2))) (Finite 2)) 160
   \<and> scalePx (Finite 2) = js_div (real (scaleMeters (Finite 2))) (Finite 2)
   \<and> scalePx (Finite 2) = Finite 100"
proof -
  have ge: "js_ge (js_div (real (scaleMeters (Finite 2))) (Finite 2)) 60"
    and le: "js_le (js_div (real (scaleMeters (Finite 2))) (Finite 2)) 160"
    by (simp_all add: scaleMeters_at_2)
  have "js_div (real (scaleMeters (Finite 2))) (Finite 2) = Finite 100"
    by (simp add: scaleMeters_at_2)
  with clamp_identity_in_range [OF ge le] ge le show ?thesis
    by simp
qed

end
